theory Spec2Isabelle
  imports Complex_Main "HOL-Library.Word"
begin

section \<open>The parallel-port manager of ppMEG.c\<close>

text \<open>
  The MEX file ppMEG.c keeps four static globals (the three port descriptors, their device
  paths, the multi-port flag and the index of the writing port) and offers one entry point,
  \<open>mexFunction\<close>, which switches on the first character of its first argument.
  The embedding below follows the C text function by function.

  \<^item> The C type \<open>int\<close> is modelled by \<open>int\<close>: the program only compares descriptors and
    return codes with 0 and never does arithmetic on them.
  \<^item> \<open>mexErrMsgTxt\<close> aborts the running call and leaves the globals as they are at that
    moment; it is the \<open>Inl\<close> branch of every result, paired with the state reached.
  \<^item> The text printed with \<open>mexPrintf\<close> is not modelled.
\<close>

subsection \<open>The operating system\<close>

text \<open>
  The calls the program makes to the kernel: \<open>open(path, O_RDWR)\<close>, the four ppdev
  \<open>ioctl\<close> requests, and \<open>close(fd)\<close>.
\<close>

datatype syscall =
    SysOpen string
  | PPCLAIM int
  | PPWDATA int "8 word"
  | PPRSTATUS int
  | PPRELEASE int
  | SysClose int

text \<open>
  The kernel is a parameter. It answers a call with a return code that may depend on every
  call made before it; \<open>status_byte\<close> is the byte that a successful \<open>PPRSTATUS\<close> stores
  through its pointer argument. The calls made so far are kept, oldest first, in a trace.

  The record has a third field for the one other thing the source leaves to the machine it
  runs on: the byte that the compiled cast \<open>(unsigned char) x\<close> yields for a double \<open>x\<close>
  whose integral part is not a value of \<open>unsigned char\<close>. C gives this conversion no
  meaning, so it is taken as given, like the answers of the kernel.
\<close>

record kernel =
  sys_ret :: "syscall list \<Rightarrow> syscall \<Rightarrow> int"
  status_byte :: "syscall list \<Rightarrow> int \<Rightarrow> 8 word"
  uchar_out_of_range :: "real \<Rightarrow> 8 word"

type_synonym trace = "syscall list"

subsection \<open>Globals, arguments and errors\<close>

record state =
  pports :: "int list"
  addresses :: "string list"
  use_multiple_ports :: int
  writing_port_idx :: int
  at_exit_registered :: bool

definition initial_state :: state where
  "initial_state =
     \<lparr> pports = [0, 0, 0],
       addresses = [''/dev/parport0'', ''/dev/parport1'', ''/dev/parport4''],
       use_multiple_ports = 1,
       writing_port_idx = 1,
       at_exit_registered = False \<rparr>"

text \<open>Both arrays have three entries; no operation changes their length.\<close>

definition wf_state :: "state \<Rightarrow> bool" where
  "wf_state s = (length (pports s) = 3 \<and> length (addresses s) = 3)"

text \<open>
  An argument of the MEX call is represented by the two observations the program makes of
  it: the string \<open>mxArrayToString\<close> returns, and the double \<open>mxGetScalar\<close> returns, a
  real number here (no NaN, no infinity, no rounding).
\<close>

record mxArray =
  mxArrayToString :: string
  mxGetScalar :: real

text \<open>
  The cast \<open>(unsigned char) x\<close> of a double. C discards the fractional part (it truncates
  toward zero); when the integral part is one of 0, ..., 255 the result is that value, and
  otherwise the conversion is undefined and the machine decides.
\<close>

definition trunc_toward_zero :: "real \<Rightarrow> int" where
  "trunc_toward_zero x = (if 0 \<le> x then \<lfloor>x\<rfloor> else \<lceil>x\<rceil>)"

definition uchar_of_double :: "kernel \<Rightarrow> real \<Rightarrow> 8 word" where
  "uchar_of_double k x =
     (let t = trunc_toward_zero x
      in if 0 \<le> t \<and> t \<le> 255 then word_of_int t else uchar_out_of_range k x)"

text \<open>One constructor for each \<open>mexErrMsgTxt\<close> of the source, in the order of the file.\<close>

datatype error =
    CouldntOpen
  | PPCLAIM_Error
  | PPWDATA_Error
  | NotOpened
  | PPRSTATUS_Error
  | PPRELEASE_Error
  | Close_Error
  | IncorrectNumberOfArguments
  | WriteNeedsMessage
  | ReadNoArgument
  | CloseNoArgument
  | NoValidAction

subsection \<open>The port primitives\<close>

definition openPort :: "kernel \<Rightarrow> string \<Rightarrow> trace \<Rightarrow> (error + int) \<times> trace" where
  "openPort k pp_address tr =
     (let pport = sys_ret k tr (SysOpen pp_address);
          tr1 = tr @ [SysOpen pp_address]
      in if pport < 0 then (Inl CouldntOpen, tr1)
         else if sys_ret k tr1 (PPCLAIM pport) < 0
           then (Inl PPCLAIM_Error, tr1 @ [PPCLAIM pport])
           else (Inr pport, tr1 @ [PPCLAIM pport]))"

definition writePort :: "kernel \<Rightarrow> 8 word \<Rightarrow> int \<Rightarrow> trace \<Rightarrow> (error + unit) \<times> trace" where
  "writePort k message pport tr =
     (if pport > 0
      then if sys_ret k tr (PPWDATA pport message) < 0
           then (Inl PPWDATA_Error, tr @ [PPWDATA pport message])
           else (Inr (), tr @ [PPWDATA pport message])
      else (Inl NotOpened, tr))"

text \<open>\<open>readPort\<close> returns the byte left in \<open>*data\<close>.\<close>

definition readPort :: "kernel \<Rightarrow> int \<Rightarrow> trace \<Rightarrow> (error + 8 word) \<times> trace" where
  "readPort k pport tr =
     (if pport > 0
      then if sys_ret k tr (PPRSTATUS pport) < 0
           then (Inl PPRSTATUS_Error, tr @ [PPRSTATUS pport])
           else (Inr (status_byte k tr pport), tr @ [PPRSTATUS pport])
      else (Inl NotOpened, tr))"

definition unloadPort :: "kernel \<Rightarrow> int \<Rightarrow> trace \<Rightarrow> (error + int) \<times> trace" where
  "unloadPort k pport tr =
     (if pport > 0
      then if sys_ret k tr (PPRELEASE pport) < 0
           then (Inl PPRELEASE_Error, tr @ [PPRELEASE pport])
           else if sys_ret k (tr @ [PPRELEASE pport]) (SysClose pport) < 0
             then (Inl Close_Error, tr @ [PPRELEASE pport, SysClose pport])
             else (Inr 0, tr @ [PPRELEASE pport, SysClose pport])
      else (Inr pport, tr))"

subsection \<open>The loops over the slots\<close>

text \<open>
  Each \<open>for (int i = 0; i < 3; i++)\<close> of the source is a recursion over the list of the
  indices still to visit, started on \<open>[0..<3]\<close>. An error leaves the loop at once.
\<close>

type_synonym outcome = "(error + real list) \<times> state \<times> trace"

fun unload_loop :: "kernel \<Rightarrow> nat list \<Rightarrow> state \<Rightarrow> trace \<Rightarrow> (error + unit) \<times> state \<times> trace" where
  "unload_loop k [] s tr = (Inr (), s, tr)"
| "unload_loop k (i # is) s tr =
     (case unloadPort k (pports s ! i) tr of
        (Inl e, tr1) \<Rightarrow> (Inl e, s, tr1)
      | (Inr p, tr1) \<Rightarrow> unload_loop k is (s\<lparr>pports := (pports s)[i := p]\<rparr>) tr1)"

definition unloadAll :: "kernel \<Rightarrow> state \<Rightarrow> trace \<Rightarrow> (error + unit) \<times> state \<times> trace" where
  "unloadAll k s tr = unload_loop k [0..<3] s tr"

text \<open>The body of the loop of \<open>case 'o'\<close>: unload slot \<open>i\<close>, then open its address.\<close>

definition open_slot :: "kernel \<Rightarrow> nat \<Rightarrow> state \<Rightarrow> trace \<Rightarrow> (error + unit) \<times> state \<times> trace" where
  "open_slot k i s tr =
     (case unloadPort k (pports s ! i) tr of
        (Inl e, tr1) \<Rightarrow> (Inl e, s, tr1)
      | (Inr p, tr1) \<Rightarrow>
          (let s1 = s\<lparr>pports := (pports s)[i := p]\<rparr>
           in case openPort k (addresses s1 ! i) tr1 of
                (Inl e, tr2) \<Rightarrow> (Inl e, s1, tr2)
              | (Inr fd, tr2) \<Rightarrow> (Inr (), s1\<lparr>pports := (pports s1)[i := fd]\<rparr>, tr2)))"

fun open_loop :: "kernel \<Rightarrow> nat list \<Rightarrow> state \<Rightarrow> trace \<Rightarrow> (error + unit) \<times> state \<times> trace" where
  "open_loop k [] s tr = (Inr (), s, tr)"
| "open_loop k (i # is) s tr =
     (case open_slot k i s tr of
        (Inl e, s1, tr1) \<Rightarrow> (Inl e, s1, tr1)
      | (Inr u, s1, tr1) \<Rightarrow> open_loop k is s1 tr1)"

text \<open>
  The loop of \<open>case 'r'\<close>; the list returned holds \<open>plhs[0]\<close>, \<open>plhs[1]\<close>, ... in this
  order, each the byte read converted to a double. The source never consults \<open>nlhs\<close>,
  and an error discards the values already stored.
\<close>

fun read_loop :: "kernel \<Rightarrow> nat list \<Rightarrow> state \<Rightarrow> trace \<Rightarrow> (error + real list) \<times> trace" where
  "read_loop k [] s tr = (Inr [], tr)"
| "read_loop k (i # is) s tr =
     (case readPort k (pports s ! i) tr of
        (Inl e, tr1) \<Rightarrow> (Inl e, tr1)
      | (Inr message, tr1) \<Rightarrow>
          (case read_loop k is s tr1 of
             (Inl e, tr2) \<Rightarrow> (Inl e, tr2)
           | (Inr plhs, tr2) \<Rightarrow> (Inr (real (unat message) # plhs), tr2)))"

subsection \<open>The four cases of the switch\<close>

definition case_open :: "kernel \<Rightarrow> mxArray list \<Rightarrow> state \<Rightarrow> trace \<Rightarrow> outcome" where
  "case_open k prhs s tr =
     (if length prhs = 1
      then (case open_loop k [0..<length (addresses s)] s tr of
              (Inl e, s1, tr1) \<Rightarrow> (Inl e, s1, tr1)
            | (Inr u, s1, tr1) \<Rightarrow> (Inr [], s1, tr1))
      else if length prhs = 2
      then (let s1 = s\<lparr>use_multiple_ports := 0\<rparr>;
                user_address = mxArrayToString (prhs ! 1);
                s2 = s1\<lparr>writing_port_idx := 0\<rparr>
            in case unloadPort k (pports s2 ! 0) tr of
                 (Inl e, tr1) \<Rightarrow> (Inl e, s2, tr1)
               | (Inr p, tr1) \<Rightarrow>
                   (let s3 = s2\<lparr>pports := (pports s2)[0 := p]\<rparr>
                    in case openPort k user_address tr1 of
                         (Inl e, tr2) \<Rightarrow> (Inl e, s3, tr2)
                       | (Inr fd, tr2) \<Rightarrow> (Inr [], s3\<lparr>pports := (pports s3)[0 := fd]\<rparr>, tr2)))
      else (Inl IncorrectNumberOfArguments, s, tr))"

text \<open>
  \<open>pports[writing_port_idx]\<close>: the index is an \<open>int\<close> of the program. It is 0 or 1 in
  every state the program reaches, as is proved below, so the read is in range.
\<close>

definition case_write :: "kernel \<Rightarrow> mxArray list \<Rightarrow> state \<Rightarrow> trace \<Rightarrow> outcome" where
  "case_write k prhs s tr =
     (if length prhs \<noteq> 2 then (Inl WriteNeedsMessage, s, tr)
      else (let message = uchar_of_double k (mxGetScalar (prhs ! 1))
            in case writePort k message (pports s ! nat (writing_port_idx s)) tr of
                 (Inl e, tr1) \<Rightarrow> (Inl e, s, tr1)
               | (Inr u, tr1) \<Rightarrow> (Inr [], s, tr1)))"

definition case_read :: "kernel \<Rightarrow> mxArray list \<Rightarrow> state \<Rightarrow> trace \<Rightarrow> outcome" where
  "case_read k prhs s tr =
     (if length prhs \<noteq> 1 then (Inl ReadNoArgument, s, tr)
      else if use_multiple_ports s \<noteq> 0
      then (case read_loop k [0..<3] s tr of
              (Inl e, tr1) \<Rightarrow> (Inl e, s, tr1)
            | (Inr plhs, tr1) \<Rightarrow> (Inr plhs, s, tr1))
      else (case readPort k (pports s ! 0) tr of
              (Inl e, tr1) \<Rightarrow> (Inl e, s, tr1)
            | (Inr message, tr1) \<Rightarrow> (Inr [real (unat message)], s, tr1)))"

definition case_close :: "kernel \<Rightarrow> mxArray list \<Rightarrow> state \<Rightarrow> trace \<Rightarrow> outcome" where
  "case_close k prhs s tr =
     (if length prhs \<noteq> 1 then (Inl CloseNoArgument, s, tr)
      else (case unloadAll k s tr of
              (Inl e, s1, tr1) \<Rightarrow> (Inl e, s1, tr1)
            | (Inr u, s1, tr1) \<Rightarrow>
                (Inr [], s1\<lparr>use_multiple_ports := 1, writing_port_idx := 1\<rparr>, tr1)))"

subsection \<open>The entry point\<close>

text \<open>
  \<open>action[0]\<close> of a C string: the first character, or the terminating NUL of an empty
  string.
\<close>

definition first_char :: "string \<Rightarrow> char" where
  "first_char action = (case action of [] \<Rightarrow> CHR 0x00 | c # _ \<Rightarrow> c)"

definition switch_action :: "kernel \<Rightarrow> mxArray list \<Rightarrow> state \<Rightarrow> trace \<Rightarrow> outcome" where
  "switch_action k prhs s tr =
     (let c = first_char (mxArrayToString (prhs ! 0))
      in if c = CHR ''o'' then case_open k prhs s tr
         else if c = CHR ''w'' then case_write k prhs s tr
         else if c = CHR ''r'' then case_read k prhs s tr
         else if c = CHR ''c'' then case_close k prhs s tr
         else (Inl NoValidAction, s, tr))"

text \<open>
  With no argument the help text is printed and the function returns. Otherwise the switch
  runs and, when it has not raised, \<open>mexAtExit(unloadAll)\<close> registers the cleanup.
\<close>

definition register_at_exit :: "outcome \<Rightarrow> outcome" where
  "register_at_exit out =
     (case out of
        (Inl e, s1, tr1) \<Rightarrow> (Inl e, s1, tr1)
      | (Inr plhs, s1, tr1) \<Rightarrow> (Inr plhs, s1\<lparr>at_exit_registered := True\<rparr>, tr1))"

definition mexFunction :: "kernel \<Rightarrow> mxArray list \<Rightarrow> state \<Rightarrow> trace \<Rightarrow> outcome" where
  "mexFunction k prhs s tr =
     (if length prhs = 0 then (Inr [], s, tr)
      else register_at_exit (switch_action k prhs s tr))"

text \<open>A session: the calls of a list made one after the other, whatever each returns.\<close>

fun run :: "kernel \<Rightarrow> mxArray list list \<Rightarrow> state \<times> trace \<Rightarrow> state \<times> trace" where
  "run k [] st = st"
| "run k (prhs # rest) st =
     (case mexFunction k prhs (fst st) (snd st) of (r, s1, tr1) \<Rightarrow> run k rest (s1, tr1))"

subsection \<open>Calls and kernels used in the examples\<close>

definition str_arg :: "string \<Rightarrow> mxArray" where
  "str_arg a = \<lparr> mxArrayToString = a, mxGetScalar = 0 \<rparr>"

definition num_arg :: "real \<Rightarrow> mxArray" where
  "num_arg x = \<lparr> mxArrayToString = [], mxGetScalar = x \<rparr>"

text \<open>
  The cast as an x86-64 machine does it out of range: the double is converted to a 32-bit
  integer, which is \<open>0x80000000\<close> when the integral part does not fit, and the low byte
  is kept.
\<close>

definition x86_uchar_out_of_range :: "real \<Rightarrow> 8 word" where
  "x86_uchar_out_of_range x =
     (let t = trunc_toward_zero x
      in if - 2147483648 \<le> t \<and> t \<le> 2147483647 then word_of_int t else 0)"

fun is_open_call :: "syscall \<Rightarrow> bool" where
  "is_open_call (SysOpen a) = True"
| "is_open_call c = False"

text \<open>
  A kernel on which every call succeeds: \<open>open\<close> hands out the descriptors 3, 4, 5, ...
  and the status pins of descriptor \<open>fd\<close> read \<open>fd\<close> itself. The cast is that of x86-64.
\<close>

definition good_kernel :: kernel where
  "good_kernel =
     \<lparr> sys_ret = (\<lambda>tr c. case c of SysOpen a \<Rightarrow> 3 + int (length (filter is_open_call tr)) | _ \<Rightarrow> 0),
       status_byte = (\<lambda>tr fd. word_of_int fd),
       uchar_out_of_range = x86_uchar_out_of_range \<rparr>"

text \<open>A kernel like \<open>good_kernel\<close>, but \<open>/dev/parport1\<close> cannot be opened.\<close>

definition no_parport1_kernel :: kernel where
  "no_parport1_kernel =
     \<lparr> sys_ret = (\<lambda>tr c. case c of
                    SysOpen a \<Rightarrow> if a = ''/dev/parport1'' then - 1
                                 else 3 + int (length (filter is_open_call tr))
                  | _ \<Rightarrow> 0),
       status_byte = (\<lambda>tr fd. word_of_int fd),
       uchar_out_of_range = x86_uchar_out_of_range \<rparr>"

subsection \<open>Predicates used in the statements\<close>

text \<open>
  The two mode flags agree: the writing port is slot 0 or slot 1, and the multi-port flag is
  set exactly when it is slot 1.
\<close>

definition mode_flags_consistent :: "state \<Rightarrow> bool" where
  "mode_flags_consistent s =
     ((writing_port_idx s = 0 \<or> writing_port_idx s = 1)
      \<and> ((use_multiple_ports s \<noteq> 0) = (writing_port_idx s = 1)))"

text \<open>
  What \<open>unloadPort\<close> asks of the kernel for a descriptor, the condition under which both
  calls succeed, and the descriptor it returns then.
\<close>

definition unload_calls :: "int \<Rightarrow> trace" where
  "unload_calls p = (if p > 0 then [PPRELEASE p, SysClose p] else [])"

definition unload_ok :: "kernel \<Rightarrow> trace \<Rightarrow> int \<Rightarrow> bool" where
  "unload_ok k tr p =
     (p > 0 \<longrightarrow> 0 \<le> sys_ret k tr (PPRELEASE p) \<and> 0 \<le> sys_ret k (tr @ [PPRELEASE p]) (SysClose p))"

definition closed_handle :: "int \<Rightarrow> int" where
  "closed_handle p = (if p > 0 then 0 else p)"

text \<open>
  \<open>call_failed k tr n\<close>: the \<open>n\<close>-th call of the trace returned a negative code.
  \<open>opened_and_claimed k tr n a fd\<close>: call \<open>n\<close> opened the path \<open>a\<close> and returned
  \<open>fd\<close>, and call \<open>n + 1\<close> claimed \<open>fd\<close> with success.
  \<open>ends_in_failed_open k tr a\<close>: the last call of the trace failed, and it is the
  \<open>open\<close> of \<open>a\<close> or the claim of the descriptor just opened for \<open>a\<close>.
  \<open>stops_at_failure k m raised tr\<close>: from position \<open>m\<close> on, a failed call is the last
  one of the trace, and then \<open>raised\<close> holds.
\<close>

definition call_failed :: "kernel \<Rightarrow> trace \<Rightarrow> nat \<Rightarrow> bool" where
  "call_failed k tr n = (sys_ret k (take n tr) (tr ! n) < 0)"

definition opened_and_claimed :: "kernel \<Rightarrow> trace \<Rightarrow> nat \<Rightarrow> string \<Rightarrow> int \<Rightarrow> bool" where
  "opened_and_claimed k tr n a fd =
     (Suc n < length tr \<and> tr ! n = SysOpen a \<and> sys_ret k (take n tr) (SysOpen a) = fd \<and> 0 \<le> fd
      \<and> tr ! Suc n = PPCLAIM fd \<and> \<not> call_failed k tr (Suc n))"

definition ends_in_failed_open :: "kernel \<Rightarrow> trace \<Rightarrow> string \<Rightarrow> bool" where
  "ends_in_failed_open k tr a =
     (tr \<noteq> [] \<and> call_failed k tr (length tr - 1)
      \<and> (last tr = SysOpen a
         \<or> (2 \<le> length tr \<and> tr ! (length tr - 2) = SysOpen a
            \<and> last tr = PPCLAIM (sys_ret k (take (length tr - 2) tr) (SysOpen a)))))"

definition stops_at_failure :: "kernel \<Rightarrow> nat \<Rightarrow> bool \<Rightarrow> trace \<Rightarrow> bool" where
  "stops_at_failure k m raised tr =
     (\<forall>n. m \<le> n \<and> n < length tr \<and> call_failed k tr n \<longrightarrow> Suc n = length tr \<and> raised)"

section \<open>Properties\<close>

subsection \<open>What the loops leave alone\<close>

lemma upt_0_3: "[0..<3] = [0, Suc 0, Suc (Suc 0)]"
  by (simp add: upt_rec)

lemma unload_loop_frame:
  "unload_loop k js s tr = (r, s', tr') \<Longrightarrow>
     use_multiple_ports s' = use_multiple_ports s \<and> writing_port_idx s' = writing_port_idx s
     \<and> addresses s' = addresses s \<and> at_exit_registered s' = at_exit_registered s
     \<and> length (pports s') = length (pports s)"
proof (induction js arbitrary: s tr)
  case Nil
  then show ?case by simp
next
  case (Cons i js)
  show ?case
  proof (cases "unloadPort k (pports s ! i) tr")
    case (Pair a tr1)
    show ?thesis
    proof (cases a)
      case (Inl e)
      with Pair Cons.prems show ?thesis by simp
    next
      case (Inr p)
      with Pair Cons.prems
      have "unload_loop k js (s\<lparr>pports := (pports s)[i := p]\<rparr>) tr1 = (r, s', tr')" by simp
      from Cons.IH [OF this] show ?thesis by simp
    qed
  qed
qed

lemma open_slot_frame:
  "open_slot k i s tr = (r, s', tr') \<Longrightarrow>
     use_multiple_ports s' = use_multiple_ports s \<and> writing_port_idx s' = writing_port_idx s
     \<and> addresses s' = addresses s \<and> at_exit_registered s' = at_exit_registered s
     \<and> length (pports s') = length (pports s)
     \<and> (\<forall>j. j \<noteq> i \<longrightarrow> pports s' ! j = pports s ! j)"
  by (auto simp: open_slot_def Let_def split: prod.splits sum.splits)

lemma open_loop_frame:
  "open_loop k js s tr = (r, s', tr') \<Longrightarrow>
     use_multiple_ports s' = use_multiple_ports s \<and> writing_port_idx s' = writing_port_idx s
     \<and> addresses s' = addresses s \<and> at_exit_registered s' = at_exit_registered s
     \<and> length (pports s') = length (pports s)
     \<and> (\<forall>j. j \<notin> set js \<longrightarrow> pports s' ! j = pports s ! j)"
proof (induction js arbitrary: s tr)
  case Nil
  then show ?case by simp
next
  case (Cons i js)
  obtain a s1 tr1 where slot: "open_slot k i s tr = (a, s1, tr1)"
    by (cases "open_slot k i s tr") auto
  note fr = open_slot_frame [OF slot]
  show ?case
  proof (cases a)
    case (Inl e)
    with slot Cons.prems have "s' = s1" by simp
    with fr show ?thesis by simp
  next
    case (Inr u)
    with slot Cons.prems have "open_loop k js s1 tr1 = (r, s', tr')" by simp
    from Cons.IH [OF this] fr show ?thesis by simp
  qed
qed

lemma case_open_flags:
  "mode_flags_consistent s \<Longrightarrow> case_open k prhs s tr = (r, s', tr') \<Longrightarrow> mode_flags_consistent s'"
  unfolding case_open_def
  by (auto simp: mode_flags_consistent_def Let_def dest!: open_loop_frame
           split: if_splits prod.splits sum.splits)

lemma case_close_flags:
  "mode_flags_consistent s \<Longrightarrow> case_close k prhs s tr = (r, s', tr') \<Longrightarrow> mode_flags_consistent s'"
  unfolding case_close_def unloadAll_def
  by (auto simp: mode_flags_consistent_def dest!: unload_loop_frame
           split: if_splits prod.splits sum.splits)

lemma case_write_state: "case_write k prhs s tr = (r, s', tr') \<Longrightarrow> s' = s"
  by (auto simp: case_write_def Let_def split: if_splits prod.splits sum.splits)

lemma case_read_state: "case_read k prhs s tr = (r, s', tr') \<Longrightarrow> s' = s"
  by (auto simp: case_read_def split: if_splits prod.splits sum.splits)

lemma switch_action_flags:
  "mode_flags_consistent s \<Longrightarrow> switch_action k prhs s tr = (r, s', tr') \<Longrightarrow> mode_flags_consistent s'"
  unfolding switch_action_def Let_def
  by (auto split: if_splits dest: case_open_flags case_close_flags case_write_state case_read_state)

lemma register_at_exit_flags:
  "register_at_exit (r, s, tr) = (r', s', tr') \<Longrightarrow> mode_flags_consistent s' = mode_flags_consistent s"
  by (auto simp: register_at_exit_def mode_flags_consistent_def split: sum.splits)

lemma mexFunction_flags:
  assumes "mode_flags_consistent s" and "mexFunction k prhs s tr = (r, s', tr')"
  shows "mode_flags_consistent s'"
proof (cases "length prhs = 0")
  case True
  with assms show ?thesis by (simp add: mexFunction_def)
next
  case False
  obtain r1 s1 tr1 where sw: "switch_action k prhs s tr = (r1, s1, tr1)"
    by (cases "switch_action k prhs s tr") auto
  from switch_action_flags [OF assms(1) sw] have "mode_flags_consistent s1" .
  moreover from False assms(2) sw have "register_at_exit (r1, s1, tr1) = (r, s', tr')"
    by (simp add: mexFunction_def)
  ultimately show ?thesis using register_at_exit_flags by blast
qed

lemma run_flags:
  "mode_flags_consistent (fst st) \<Longrightarrow> mode_flags_consistent (fst (run k calls st))"
proof (induction calls arbitrary: st)
  case Nil
  then show ?case by simp
next
  case (Cons prhs rest)
  obtain r s1 tr1 where m: "mexFunction k prhs (fst st) (snd st) = (r, s1, tr1)"
    by (cases "mexFunction k prhs (fst st) (snd st)") auto
  from mexFunction_flags [OF Cons.prems m] have "mode_flags_consistent (fst (s1, tr1))" by simp
  from Cons.IH [OF this] m show ?case by simp
qed

subsection \<open>The entry point on each action, and the kernels of the examples\<close>

lemma close_call_unfold:
  "length prhs = 1 \<Longrightarrow> first_char (mxArrayToString (prhs ! 0)) = CHR ''c'' \<Longrightarrow>
   mexFunction k prhs s tr = register_at_exit (case_close k prhs s tr)"
  by (simp add: mexFunction_def switch_action_def)

lemma read_call_unfold:
  "length prhs \<noteq> 0 \<Longrightarrow> first_char (mxArrayToString (prhs ! 0)) = CHR ''r'' \<Longrightarrow>
   mexFunction k prhs s tr = register_at_exit (case_read k prhs s tr)"
  by (simp add: mexFunction_def switch_action_def)

lemma write_call_unfold:
  "length prhs \<noteq> 0 \<Longrightarrow> first_char (mxArrayToString (prhs ! 0)) = CHR ''w'' \<Longrightarrow>
   mexFunction k prhs s tr = register_at_exit (case_write k prhs s tr)"
  by (simp add: mexFunction_def switch_action_def)

lemma open_call_unfold:
  "length prhs \<noteq> 0 \<Longrightarrow> first_char (mxArrayToString (prhs ! 0)) = CHR ''o'' \<Longrightarrow>
   mexFunction k prhs s tr = register_at_exit (case_open k prhs s tr)"
  by (simp add: mexFunction_def switch_action_def)

lemma unloadPort_ok:
  "unload_ok k tr p \<Longrightarrow> unloadPort k p tr = (Inr (closed_handle p), tr @ unload_calls p)"
  by (auto simp: unload_ok_def unloadPort_def closed_handle_def unload_calls_def)

lemma unloadPort_Inr:
  "unloadPort k p tr = (Inr q, tr1) \<Longrightarrow> q = closed_handle p \<and> tr1 = tr @ unload_calls p \<and> unload_ok k tr p"
  by (auto simp: unload_ok_def unloadPort_def closed_handle_def unload_calls_def split: if_splits)

lemma unloadPort_Inl:
  "unloadPort k p tr = (Inl e, tr1) \<Longrightarrow> e = PPRELEASE_Error \<or> e = Close_Error"
  by (auto simp: unloadPort_def split: if_splits)

lemmas ex_defs = good_kernel_def no_parport1_kernel_def initial_state_def str_arg_def num_arg_def
  first_char_def unload_ok_def unload_calls_def closed_handle_def wf_state_def

lemma good_kernel_status: "(unsigned (status_byte good_kernel tr 3) :: real) = 3"
          "(unsigned (status_byte good_kernel tr 4) :: real) = 4"
          "(unsigned (status_byte good_kernel tr 5) :: real) = 5"
  by (simp_all add: good_kernel_def)

lemma good_kernel_status_ret: "sys_ret good_kernel tr (PPRSTATUS fd) = 0"
  by (simp add: good_kernel_def)

subsection \<open>Traces: a failed call is the last call\<close>

lemma call_failed_append:
  "n < length tr \<Longrightarrow> call_failed k (tr @ ext) n = call_failed k tr n"
  by (simp add: call_failed_def nth_append)

lemma call_failed_last:
  "call_failed k (tr @ [c]) (length tr) = (sys_ret k tr c < 0)"
  by (simp add: call_failed_def)

lemma stops_refl: "stops_at_failure k (length tr) raised tr"
  by (auto simp: stops_at_failure_def)

lemma stops_snoc_ok:
  assumes "stops_at_failure k m False tr" and "\<not> sys_ret k tr c < 0"
  shows "stops_at_failure k m False (tr @ [c])"
  unfolding stops_at_failure_def
proof (intro allI impI)
  fix n
  assume h: "m \<le> n \<and> n < length (tr @ [c]) \<and> call_failed k (tr @ [c]) n"
  show "Suc n = length (tr @ [c]) \<and> False"
  proof (cases "n < length tr")
    case True
    with h have "call_failed k tr n" by (simp add: call_failed_append)
    with assms(1) h True show ?thesis by (auto simp: stops_at_failure_def)
  next
    case False
    with h have "n = length tr" by simp
    with h assms(2) show ?thesis by (simp add: call_failed_last)
  qed
qed

lemma stops_snoc_raise:
  assumes "stops_at_failure k m False tr"
  shows "stops_at_failure k m True (tr @ [c])"
  unfolding stops_at_failure_def
proof (intro allI impI)
  fix n
  assume h: "m \<le> n \<and> n < length (tr @ [c]) \<and> call_failed k (tr @ [c]) n"
  show "Suc n = length (tr @ [c]) \<and> True"
  proof (cases "n < length tr")
    case True
    with h have "call_failed k tr n" by (simp add: call_failed_append)
    with assms(1) h True show ?thesis by (auto simp: stops_at_failure_def)
  next
    case False
    with h show ?thesis by simp
  qed
qed

lemma unloadPort_stops:
  assumes "unloadPort k p tr = (r, tr1)" and "stops_at_failure k m False tr"
  shows "stops_at_failure k m (isl r) tr1"
proof (cases "p > 0")
  case False
  with assms show ?thesis by (auto simp: unloadPort_def)
next
  case True
  show ?thesis
  proof (cases "sys_ret k tr (PPRELEASE p) < 0")
    case True
    with \<open>p > 0\<close> assms(1) have "r = Inl PPRELEASE_Error" "tr1 = tr @ [PPRELEASE p]"
      by (auto simp: unloadPort_def)
    with stops_snoc_raise [OF assms(2)] show ?thesis by simp
  next
    case False
    from stops_snoc_ok [OF assms(2) False]
    have rel: "stops_at_failure k m False (tr @ [PPRELEASE p])" .
    show ?thesis
    proof (cases "sys_ret k (tr @ [PPRELEASE p]) (SysClose p) < 0")
      case True
      with False \<open>p > 0\<close> assms(1)
      have "r = Inl Close_Error" "tr1 = (tr @ [PPRELEASE p]) @ [SysClose p]"
        by (auto simp: unloadPort_def)
      with stops_snoc_raise [OF rel] show ?thesis by simp
    next
      case cl: False
      with False \<open>p > 0\<close> assms(1)
      have "r = Inr 0" "tr1 = (tr @ [PPRELEASE p]) @ [SysClose p]"
        by (auto simp: unloadPort_def)
      with stops_snoc_ok [OF rel cl] show ?thesis by simp
    qed
  qed
qed

lemma openPort_stops:
  assumes "openPort k a tr = (r, tr1)" and "stops_at_failure k m False tr"
  shows "stops_at_failure k m (isl r) tr1"
proof (cases "sys_ret k tr (SysOpen a) < 0")
  case True
  with assms(1) have "r = Inl CouldntOpen" "tr1 = tr @ [SysOpen a]"
    by (auto simp: openPort_def Let_def)
  with stops_snoc_raise [OF assms(2)] show ?thesis by simp
next
  case False
  from stops_snoc_ok [OF assms(2) False]
  have op: "stops_at_failure k m False (tr @ [SysOpen a])" .
  show ?thesis
  proof (cases "sys_ret k (tr @ [SysOpen a]) (PPCLAIM (sys_ret k tr (SysOpen a))) < 0")
    case True
    with False assms(1)
    have "r = Inl PPCLAIM_Error" "tr1 = (tr @ [SysOpen a]) @ [PPCLAIM (sys_ret k tr (SysOpen a))]"
      by (auto simp: openPort_def Let_def)
    with stops_snoc_raise [OF op] show ?thesis by simp
  next
    case cl: False
    with False assms(1)
    have "r = Inr (sys_ret k tr (SysOpen a))"
         "tr1 = (tr @ [SysOpen a]) @ [PPCLAIM (sys_ret k tr (SysOpen a))]"
      by (auto simp: openPort_def Let_def)
    with stops_snoc_ok [OF op cl] show ?thesis by simp
  qed
qed

lemma open_slot_stops:
  assumes "open_slot k i s tr = (r, s1, tr1)" and "stops_at_failure k m False tr"
  shows "stops_at_failure k m (isl r) tr1"
proof (cases "unloadPort k (pports s ! i) tr")
  case (Pair a tr0)
  note un = unloadPort_stops [OF Pair assms(2)]
  show ?thesis
  proof (cases a)
    case (Inl e)
    with Pair assms(1) have "r = Inl e" "tr1 = tr0" by (auto simp: open_slot_def)
    with un Inl show ?thesis by simp
  next
    case (Inr p)
    with un have st0: "stops_at_failure k m False tr0" by simp
    obtain b tr2 where op: "openPort k (addresses s ! i) tr0 = (b, tr2)"
      by (cases "openPort k (addresses s ! i) tr0") auto
    from openPort_stops [OF op st0] have st2: "stops_at_failure k m (isl b) tr2" .
    from Pair Inr op assms(1) have "isl r = isl b" "tr1 = tr2"
      by (cases b; auto simp: open_slot_def Let_def)+
    with st2 show ?thesis by simp
  qed
qed

lemma open_loop_stops:
  "open_loop k js s tr = (r, s', tr') \<Longrightarrow> stops_at_failure k m False tr \<Longrightarrow>
     stops_at_failure k m (isl r) tr'"
proof (induction js arbitrary: s tr)
  case Nil
  then show ?case by auto
next
  case (Cons i js)
  obtain a s1 tr1 where slot: "open_slot k i s tr = (a, s1, tr1)"
    by (cases "open_slot k i s tr") auto
  note st = open_slot_stops [OF slot Cons.prems(2)]
  show ?case
  proof (cases a)
    case (Inl e)
    with slot Cons.prems(1) st show ?thesis by auto
  next
    case (Inr u)
    with slot Cons.prems(1) have "open_loop k js s1 tr1 = (r, s', tr')" by simp
    moreover from st Inr have "stops_at_failure k m False tr1" by simp
    ultimately show ?thesis by (rule Cons.IH)
  qed
qed

lemma unloadPort_extends: "unloadPort k p tr = (r, tr1) \<Longrightarrow> \<exists>ext. tr1 = tr @ ext"
  by (auto simp: unloadPort_def split: if_splits)

lemma openPort_extends: "openPort k a tr = (r, tr1) \<Longrightarrow> \<exists>ext. tr1 = tr @ ext"
  by (auto simp: openPort_def Let_def split: if_splits)

lemma open_slot_extends:
  assumes "open_slot k i s tr = (r, s1, tr1)"
  shows "\<exists>ext. tr1 = tr @ ext"
proof (cases "unloadPort k (pports s ! i) tr")
  case (Pair a tr0)
  from unloadPort_extends [OF Pair] obtain e0 where e0: "tr0 = tr @ e0" by blast
  show ?thesis
  proof (cases a)
    case (Inl e)
    with Pair assms e0 show ?thesis by (auto simp: open_slot_def)
  next
    case (Inr p)
    obtain b tr2 where op: "openPort k (addresses s ! i) tr0 = (b, tr2)"
      by (cases "openPort k (addresses s ! i) tr0") auto
    from openPort_extends [OF op] obtain e1 where "tr2 = tr0 @ e1" by blast
    moreover from Pair Inr op assms have "tr1 = tr2"
      by (cases b) (auto simp: open_slot_def Let_def)
    ultimately have "tr1 = tr @ (e0 @ e1)" using e0 by simp
    then show ?thesis by blast
  qed
qed

lemma open_loop_extends:
  "open_loop k js s tr = (r, s', tr') \<Longrightarrow> \<exists>ext. tr' = tr @ ext"
proof (induction js arbitrary: s tr)
  case Nil
  then show ?case by auto
next
  case (Cons i js)
  obtain a s1 tr1 where slot: "open_slot k i s tr = (a, s1, tr1)"
    by (cases "open_slot k i s tr") auto
  from open_slot_extends [OF slot] obtain e0 where e0: "tr1 = tr @ e0" by blast
  show ?case
  proof (cases a)
    case (Inl e)
    with slot Cons.prems e0 show ?thesis by auto
  next
    case (Inr u)
    with slot Cons.prems have "open_loop k js s1 tr1 = (r, s', tr')" by simp
    from Cons.IH [OF this] obtain e1 where "tr' = tr1 @ e1" by blast
    with e0 have "tr' = tr @ (e0 @ e1)" by simp
    then show ?thesis by blast
  qed
qed

lemma opened_and_claimed_append:
  "opened_and_claimed k tr n a fd \<Longrightarrow> opened_and_claimed k (tr @ ext) n a fd"
  by (auto simp: opened_and_claimed_def call_failed_def nth_append)

lemma closed_handle_le: "closed_handle p \<le> 0"
  by (simp add: closed_handle_def)

lemma opened_and_claimed_snoc2:
  assumes "0 \<le> sys_ret k tr0 (SysOpen a)"
    and "\<not> sys_ret k (tr0 @ [SysOpen a]) (PPCLAIM (sys_ret k tr0 (SysOpen a))) < 0"
  shows "opened_and_claimed k (tr0 @ [SysOpen a, PPCLAIM (sys_ret k tr0 (SysOpen a))])
           (length tr0) a (sys_ret k tr0 (SysOpen a))"
  using assms by (simp add: opened_and_claimed_def call_failed_def nth_append)

lemma open_slot_Inr:
  assumes "open_slot k i s tr = (Inr u, s1, tr1)" and "i < length (pports s)"
  shows "\<exists>n\<ge>length tr. opened_and_claimed k tr1 n (addresses s ! i) (pports s1 ! i)"
proof (cases "unloadPort k (pports s ! i) tr")
  case (Pair a tr0)
  from unloadPort_extends [OF Pair] obtain e0 where e0: "tr0 = tr @ e0" by blast
  from Pair assms(1) obtain p where a: "a = Inr p"
    by (cases a) (auto simp: open_slot_def)
  let ?fd = "sys_ret k tr0 (SysOpen (addresses s ! i))"
  from Pair a assms
  have ok: "\<not> ?fd < 0" "\<not> sys_ret k (tr0 @ [SysOpen (addresses s ! i)]) (PPCLAIM ?fd) < 0"
    and tr1: "tr1 = tr0 @ [SysOpen (addresses s ! i), PPCLAIM ?fd]"
    and s1: "pports s1 ! i = ?fd"
    by (auto simp: open_slot_def openPort_def Let_def split: if_splits)
  from ok have "opened_and_claimed k tr1 (length tr0) (addresses s ! i) (pports s1 ! i)"
    unfolding tr1 s1 by (intro opened_and_claimed_snoc2) simp_all
  moreover from e0 have "length tr \<le> length tr0" by simp
  ultimately show ?thesis by blast
qed

lemma open_slot_open_failed:
  assumes "open_slot k i s tr = (Inl e, s1, tr1)" and "e = CouldntOpen \<or> e = PPCLAIM_Error"
    and "i < length (pports s)"
  shows "pports s1 ! i \<le> 0 \<and> ends_in_failed_open k tr1 (addresses s ! i)"
proof (cases "unloadPort k (pports s ! i) tr")
  case (Pair a tr0)
  from Pair assms(1,2) obtain p where a: "a = Inr p"
    by (cases a) (auto simp: open_slot_def dest: unloadPort_Inl)
  from Pair a have p: "p = closed_handle (pports s ! i)"
    by (simp add: unloadPort_Inr)
  let ?a = "addresses s ! i"
  let ?fd = "sys_ret k tr0 (SysOpen ?a)"
  from Pair a assms(1,3) p have "pports s1 ! i = closed_handle (pports s ! i)"
    by (auto simp: open_slot_def Let_def split: prod.splits sum.splits)
  then have le: "pports s1 ! i \<le> 0" by (simp add: closed_handle_le)
  show ?thesis
  proof (cases "?fd < 0")
    case True
    with Pair a assms(1) have "tr1 = tr0 @ [SysOpen ?a]"
      by (auto simp: open_slot_def openPort_def Let_def)
    with True have "ends_in_failed_open k tr1 ?a"
      by (simp add: ends_in_failed_open_def call_failed_def)
    with le show ?thesis by simp
  next
    case False
    with Pair a assms(1)
    have tr1: "tr1 = tr0 @ [SysOpen ?a, PPCLAIM ?fd]"
      and bad: "sys_ret k (tr0 @ [SysOpen ?a]) (PPCLAIM ?fd) < 0"
      by (auto simp: open_slot_def openPort_def Let_def split: if_splits)
    from bad have "ends_in_failed_open k tr1 ?a"
      unfolding tr1 by (simp add: ends_in_failed_open_def call_failed_def nth_append)
    with le show ?thesis by simp
  qed
qed

lemma open_loop_open_failed:
  assumes "open_loop k js s tr = (Inl e, s', tr')" and "e = CouldntOpen \<or> e = PPCLAIM_Error"
    and "sorted_wrt (<) js" and "\<forall>j\<in>set js. j < length (pports s)"
  shows "\<exists>i\<in>set js.
           (\<forall>j\<in>set js. j < i \<longrightarrow>
              (\<exists>n\<ge>length tr. opened_and_claimed k tr' n (addresses s ! j) (pports s' ! j)))
         \<and> (\<forall>j\<in>set js. i < j \<longrightarrow> pports s' ! j = pports s ! j)
         \<and> pports s' ! i \<le> 0
         \<and> ends_in_failed_open k tr' (addresses s ! i)"
  using assms
proof (induction js arbitrary: s tr)
  case Nil
  then show ?case by simp
next
  case (Cons i0 js)
  from Cons.prems(3) have above: "\<forall>j\<in>set js. i0 < j" and sorted: "sorted_wrt (<) js"
    by simp_all
  from Cons.prems(4) have i0: "i0 < length (pports s)" by simp
  obtain a s1 tr1 where slot: "open_slot k i0 s tr = (a, s1, tr1)"
    by (cases "open_slot k i0 s tr") auto
  note fr = open_slot_frame [OF slot]
  show ?case
  proof (cases a)
    case (Inl e1)
    with slot Cons.prems(1) have eq: "e1 = e" "s1 = s'" "tr1 = tr'" by simp_all
    from slot Inl eq have f: "open_slot k i0 s tr = (Inl e, s', tr')" by simp
    note fail = open_slot_open_failed [OF f Cons.prems(2) i0]
    have "\<forall>j\<in>set (i0 # js). j < i0 \<longrightarrow>
            (\<exists>n\<ge>length tr. opened_and_claimed k tr' n (addresses s ! j) (pports s' ! j))"
      using above by auto
    moreover have "\<forall>j\<in>set (i0 # js). i0 < j \<longrightarrow> pports s' ! j = pports s ! j"
      using fr eq by auto
    ultimately show ?thesis using fail by auto
  next
    case (Inr u)
    with slot Cons.prems(1) have loop: "open_loop k js s1 tr1 = (Inl e, s', tr')" by simp
    from Cons.prems(4) fr have len: "\<forall>j\<in>set js. j < length (pports s1)" by simp
    from Cons.IH [OF loop Cons.prems(2) sorted len]
    obtain i where i: "i \<in> set js"
      and lower: "\<forall>j\<in>set js. j < i \<longrightarrow>
              (\<exists>n\<ge>length tr1. opened_and_claimed k tr' n (addresses s1 ! j) (pports s' ! j))"
      and higher: "\<forall>j\<in>set js. i < j \<longrightarrow> pports s' ! j = pports s1 ! j"
      and closed: "pports s' ! i \<le> 0"
      and last: "ends_in_failed_open k tr' (addresses s1 ! i)"
      by blast
    from fr have addr: "addresses s1 = addresses s" by simp
    from open_slot_extends [OF slot] obtain e0 where e0: "tr1 = tr @ e0" by blast
    from open_loop_extends [OF loop] obtain e1 where e1: "tr' = tr1 @ e1" by blast
    from above have "i0 \<notin> set js" by auto
    with open_loop_frame [OF loop] have keep: "pports s' ! i0 = pports s1 ! i0" by simp
    from slot Inr have "open_slot k i0 s tr = (Inr u, s1, tr1)" by simp
    from open_slot_Inr [OF this i0]
    obtain n0 where n0: "length tr \<le> n0"
      "opened_and_claimed k tr1 n0 (addresses s ! i0) (pports s1 ! i0)" by blast
    from n0(2) have "opened_and_claimed k tr' n0 (addresses s ! i0) (pports s' ! i0)"
      unfolding e1 keep by (rule opened_and_claimed_append)
    with n0(1) have first: "\<exists>n\<ge>length tr. opened_and_claimed k tr' n (addresses s ! i0) (pports s' ! i0)"
      by blast
    have low: "\<forall>j\<in>set (i0 # js). j < i \<longrightarrow>
            (\<exists>n\<ge>length tr. opened_and_claimed k tr' n (addresses s ! j) (pports s' ! j))"
    proof (intro ballI impI)
      fix j assume j: "j \<in> set (i0 # js)" "j < i"
      show "\<exists>n\<ge>length tr. opened_and_claimed k tr' n (addresses s ! j) (pports s' ! j)"
      proof (cases "j = i0")
        case True
        with first show ?thesis by simp
      next
        case False
        with j have "j \<in> set js" by simp
        with lower j(2) addr obtain n where "length tr1 \<le> n"
          "opened_and_claimed k tr' n (addresses s ! j) (pports s' ! j)" by auto
        moreover from e0 have "length tr \<le> length tr1" by simp
        ultimately show ?thesis by (meson order_trans)
      qed
    qed
    have high: "\<forall>j\<in>set (i0 # js). i < j \<longrightarrow> pports s' ! j = pports s ! j"
    proof (intro ballI impI)
      fix j assume j: "j \<in> set (i0 # js)" "i < j"
      from above i have "i0 < i" by simp
      with j have "j \<noteq> i0" "j \<in> set js" by auto
      with higher j(2) fr show "pports s' ! j = pports s ! j" by simp
    qed
    from i low high closed last addr show ?thesis by auto
  qed
qed

lemma unloadPort_Inl_last:
  "unloadPort k p tr = (Inl e, tr1) \<Longrightarrow>
     tr1 \<noteq> [] \<and> (last tr1 = PPRELEASE p \<or> last tr1 = SysClose p)"
  by (auto simp: unloadPort_def split: if_splits)

lemma openPort_Inl_last:
  "openPort k a tr = (Inl e, tr1) \<Longrightarrow>
     tr1 \<noteq> [] \<and> (last tr1 = SysOpen a \<and> e = CouldntOpen
                 \<or> (\<exists>fd. last tr1 = PPCLAIM fd) \<and> e = PPCLAIM_Error)"
  by (auto simp: openPort_def Let_def split: if_splits)

lemma open_slot_Inl_last:
  assumes "open_slot k i s tr = (Inl e, s1, tr1)"
  shows "tr1 \<noteq> [] \<and> ((\<exists>a. last tr1 = SysOpen a) \<longrightarrow> e = CouldntOpen)
         \<and> ((\<exists>fd. last tr1 = PPCLAIM fd) \<longrightarrow> e = PPCLAIM_Error)"
proof (cases "unloadPort k (pports s ! i) tr")
  case (Pair a tr0)
  show ?thesis
  proof (cases a)
    case (Inl e0)
    with Pair assms have "unloadPort k (pports s ! i) tr = (Inl e, tr1)"
      by (auto simp: open_slot_def)
    from unloadPort_Inl_last [OF this] show ?thesis by auto
  next
    case (Inr p)
    obtain b tr2 where op: "openPort k (addresses s ! i) tr0 = (b, tr2)"
      by (cases "openPort k (addresses s ! i) tr0") auto
    with Pair Inr assms have "openPort k (addresses s ! i) tr0 = (Inl e, tr1)"
      by (cases b) (auto simp: open_slot_def Let_def)
    from openPort_Inl_last [OF this] show ?thesis by auto
  qed
qed

lemma open_loop_Inl_last:
  "open_loop k js s tr = (Inl e, s', tr') \<Longrightarrow>
     tr' \<noteq> [] \<and> ((\<exists>a. last tr' = SysOpen a) \<longrightarrow> e = CouldntOpen)
     \<and> ((\<exists>fd. last tr' = PPCLAIM fd) \<longrightarrow> e = PPCLAIM_Error)"
proof (induction js arbitrary: s tr)
  case Nil
  then show ?case by simp
next
  case (Cons i js)
  obtain a s1 tr1 where slot: "open_slot k i s tr = (a, s1, tr1)"
    by (cases "open_slot k i s tr") auto
  show ?case
  proof (cases a)
    case (Inl e1)
    with slot Cons.prems have "open_slot k i s tr = (Inl e, s', tr')" by simp
    then show ?thesis by (rule open_slot_Inl_last)
  next
    case (Inr u)
    with slot Cons.prems have "open_loop k js s1 tr1 = (Inl e, s', tr')" by simp
    then show ?thesis by (rule Cons.IH)
  qed
qed

subsection \<open>Opening the ports\<close>

text \<open>
  Claim C1. The claim: \<open>open\<close> with no address sets the multi-port flag and makes slot 1
  the writing port. The program does not: the branch for one argument writes neither
  global. On a kernel where every call succeeds, \<open>open\<close> with the address
  \<open>/dev/parport1\<close> followed by \<open>open\<close> with no address returns normally both
  times, reopens the three default ports, and leaves \<open>use_multiple_ports = 0\<close> and
  \<open>writing_port_idx = 0\<close>.
\<close>

theorem multi_open_after_single_open_keeps_single_mode:
  "mexFunction good_kernel [str_arg ''open'', str_arg ''/dev/parport1''] initial_state []
     = (Inr [],
        \<lparr>pports = [3, 0, 0], addresses = [''/dev/parport0'', ''/dev/parport1'', ''/dev/parport4''],
         use_multiple_ports = 0, writing_port_idx = 0, at_exit_registered = True\<rparr>,
        [SysOpen ''/dev/parport1'', PPCLAIM 3])
   \<and> mexFunction good_kernel [str_arg ''open'']
        \<lparr>pports = [3, 0, 0], addresses = [''/dev/parport0'', ''/dev/parport1'', ''/dev/parport4''],
         use_multiple_ports = 0, writing_port_idx = 0, at_exit_registered = True\<rparr>
        [SysOpen ''/dev/parport1'', PPCLAIM 3]
     = (Inr [],
        \<lparr>pports = [4, 5, 6], addresses = [''/dev/parport0'', ''/dev/parport1'', ''/dev/parport4''],
         use_multiple_ports = 0, writing_port_idx = 0, at_exit_registered = True\<rparr>,
        [SysOpen ''/dev/parport1'', PPCLAIM 3, PPRELEASE 3, SysClose 3,
         SysOpen ''/dev/parport0'', PPCLAIM 4, SysOpen ''/dev/parport1'', PPCLAIM 5,
         SysOpen ''/dev/parport4'', PPCLAIM 6])"
  by (simp add: mexFunction_def switch_action_def first_char_def str_arg_def register_at_exit_def
        case_open_def open_slot_def openPort_def unloadPort_def good_kernel_def initial_state_def
        upt_0_3 Let_def)

text \<open>
  Claim C3. \<open>open\<close> with an address. Whatever the outcome, the call leaves
  \<open>use_multiple_ports = 0\<close> and \<open>writing_port_idx = 0\<close>, and the descriptors of slots 1
  and 2 and all three addresses are as before. When the release and close of slot 0 (made
  only if it is open), the \<open>open\<close> of the address and the claim of the descriptor
  obtained all succeed, the call returns normally, the kernel has received exactly these
  calls in this order, and slot 0 holds the new descriptor.
\<close>

theorem single_open_effects:
  assumes "length prhs = 2" and "first_char (mxArrayToString (prhs ! 0)) = CHR ''o''"
    and "user_address = mxArrayToString (prhs ! 1)"
    and "tr0 = tr @ unload_calls (pports s ! 0)"
    and "fd = sys_ret k tr0 (SysOpen user_address)"
  shows "(\<forall>r s' tr'. mexFunction k prhs s tr = (r, s', tr') \<longrightarrow>
            use_multiple_ports s' = 0 \<and> writing_port_idx s' = 0
            \<and> pports s' ! 1 = pports s ! 1 \<and> pports s' ! 2 = pports s ! 2
            \<and> addresses s' = addresses s)
       \<and> (unload_ok k tr (pports s ! 0) \<and> 0 \<le> fd
            \<and> 0 \<le> sys_ret k (tr0 @ [SysOpen user_address]) (PPCLAIM fd)
          \<longrightarrow> mexFunction k prhs s tr =
                (Inr [],
                 s\<lparr>pports := (pports s)[0 := fd], use_multiple_ports := 0,
                   writing_port_idx := 0, at_exit_registered := True\<rparr>,
                 tr0 @ [SysOpen user_address, PPCLAIM fd]))"
proof -
  from assms(1,2) have u: "mexFunction k prhs s tr = register_at_exit (case_open k prhs s tr)"
    by (simp add: open_call_unfold)
  have frame: "use_multiple_ports s' = 0 \<and> writing_port_idx s' = 0
            \<and> pports s' ! 1 = pports s ! 1 \<and> pports s' ! 2 = pports s ! 2
            \<and> addresses s' = addresses s"
    if "mexFunction k prhs s tr = (r, s', tr')" for r s' tr'
    using that u assms(1)
    by (auto simp: case_open_def register_at_exit_def Let_def split: prod.splits sum.splits)
  have success: "mexFunction k prhs s tr =
                (Inr [],
                 s\<lparr>pports := (pports s)[0 := fd], use_multiple_ports := 0,
                   writing_port_idx := 0, at_exit_registered := True\<rparr>,
                 tr0 @ [SysOpen user_address, PPCLAIM fd])"
    if ok: "unload_ok k tr (pports s ! 0) \<and> 0 \<le> fd
            \<and> 0 \<le> sys_ret k (tr0 @ [SysOpen user_address]) (PPCLAIM fd)"
  proof -
    from ok have "unloadPort k (pports s ! 0) tr = (Inr (closed_handle (pports s ! 0)), tr0)"
      by (simp add: unloadPort_ok assms(4))
    with ok assms(1) show ?thesis
      unfolding u assms(3,5)
      by (simp add: case_open_def register_at_exit_def Let_def openPort_def)
  qed
  from frame success show ?thesis by blast
qed

theorem single_open_effects_witness:
  "mexFunction good_kernel [str_arg ''open'', str_arg ''/dev/parport1'']
      (initial_state\<lparr>pports := [3, 4, 5]\<rparr>)
      [SysOpen ''/dev/parport0'', PPCLAIM 3, SysOpen ''/dev/parport1'', PPCLAIM 4,
       SysOpen ''/dev/parport4'', PPCLAIM 5]
   = (Inr [],
      initial_state\<lparr>pports := [6, 4, 5], use_multiple_ports := 0, writing_port_idx := 0,
                     at_exit_registered := True\<rparr>,
      [SysOpen ''/dev/parport0'', PPCLAIM 3, SysOpen ''/dev/parport1'', PPCLAIM 4,
       SysOpen ''/dev/parport4'', PPCLAIM 5,
       PPRELEASE 3, SysClose 3, SysOpen ''/dev/parport1'', PPCLAIM 6])"
  using single_open_effects
          [where k = good_kernel and prhs = "[str_arg ''open'', str_arg ''/dev/parport1'']"
             and s = "initial_state\<lparr>pports := [3, 4, 5]\<rparr>"
             and tr = "[SysOpen ''/dev/parport0'', PPCLAIM 3, SysOpen ''/dev/parport1'', PPCLAIM 4,
                        SysOpen ''/dev/parport4'', PPCLAIM 5]"
             and user_address = "''/dev/parport1''"
             and ?tr0.0 = "[SysOpen ''/dev/parport0'', PPCLAIM 3, SysOpen ''/dev/parport1'', PPCLAIM 4,
                        SysOpen ''/dev/parport4'', PPCLAIM 5, PPRELEASE 3, SysClose 3]"
             and fd = 6]
  by (simp add: ex_defs)

text \<open>
  Claim C7. \<open>open\<close> with no address, on any outcome \<open>(r, s', tr')\<close>. A kernel call
  of this operation that fails is the last call the operation makes, and the operation
  then ends with an error: the error of a failed \<open>open\<close> when the call is an \<open>open\<close>,
  the error of a failed claim when it is a claim. If an \<open>open\<close> or a claim of this
  operation fails (equally, if the operation ends with one of these two errors), there is
  a slot \<open>i\<close> whose open-or-claim is that last, failed call; every slot below \<open>i\<close> holds
  the descriptor that this operation opened and claimed for its address; every slot above
  \<open>i\<close> holds the descriptor it held before; slot \<open>i\<close> itself is left not open.
\<close>

theorem multi_open_failure_no_rollback:
  assumes "wf_state s"
    and "length prhs = 1" and "first_char (mxArrayToString (prhs ! 0)) = CHR ''o''"
    and "mexFunction k prhs s tr = (r, s', tr')"
  shows "(\<forall>n. length tr \<le> n \<and> n < length tr' \<and> call_failed k tr' n
              \<longrightarrow> Suc n = length tr' \<and> (\<exists>e. r = Inl e)
                  \<and> ((\<exists>a. tr' ! n = SysOpen a) \<longrightarrow> r = Inl CouldntOpen)
                  \<and> ((\<exists>fd. tr' ! n = PPCLAIM fd) \<longrightarrow> r = Inl PPCLAIM_Error))
       \<and> (r = Inl CouldntOpen \<or> r = Inl PPCLAIM_Error
            \<or> (\<exists>n. length tr \<le> n \<and> n < length tr' \<and> call_failed k tr' n
                    \<and> ((\<exists>a. tr' ! n = SysOpen a) \<or> (\<exists>fd. tr' ! n = PPCLAIM fd)))
          \<longrightarrow>
            (\<exists>i<3.
               (\<forall>j<i. \<exists>n\<ge>length tr. opened_and_claimed k tr' n (addresses s ! j) (pports s' ! j))
             \<and> (\<forall>j. i < j \<and> j < 3 \<longrightarrow> pports s' ! j = pports s ! j)
             \<and> pports s' ! i \<le> 0
             \<and> ends_in_failed_open k tr' (addresses s ! i)))"
proof -
  from assms(1) have len: "length (pports s) = 3" "length (addresses s) = 3"
    by (simp_all add: wf_state_def)
  obtain r1 s1 tr1 where loop: "open_loop k [0..<3] s tr = (r1, s1, tr1)"
    by (cases "open_loop k [0..<3] s tr") auto
  from assms(2,3) have "mexFunction k prhs s tr = register_at_exit (case_open k prhs s tr)"
    by (simp add: open_call_unfold)
  with assms(2,4) len loop
  have res: "isl r = isl r1" "tr' = tr1" "pports s' = pports s1" "\<And>e. r = Inl e \<Longrightarrow> r1 = Inl e"
    by (cases r1; auto simp: case_open_def register_at_exit_def)+
  have part1: "Suc n = length tr' \<and> (\<exists>e. r = Inl e)
                  \<and> ((\<exists>a. tr' ! n = SysOpen a) \<longrightarrow> r = Inl CouldntOpen)
                  \<and> ((\<exists>fd. tr' ! n = PPCLAIM fd) \<longrightarrow> r = Inl PPCLAIM_Error)"
    if n: "length tr \<le> n \<and> n < length tr' \<and> call_failed k tr' n" for n
  proof -
    from open_loop_stops [OF loop stops_refl]
    have "stops_at_failure k (length tr) (isl r) tr'" using res by simp
    with n have last: "Suc n = length tr'" and "isl r"
      by (auto simp: stops_at_failure_def)
    then obtain e where e: "r = Inl e" by (cases r) auto
    with res loop have "open_loop k [0..<3] s tr = (Inl e, s1, tr')" by simp
    from open_loop_Inl_last [OF this]
    have lab: "tr' \<noteq> []" "(\<exists>a. last tr' = SysOpen a) \<longrightarrow> e = CouldntOpen"
      "(\<exists>fd. last tr' = PPCLAIM fd) \<longrightarrow> e = PPCLAIM_Error" by simp_all
    from last have "n = length tr' - 1" by simp
    with lab(1) have "last tr' = tr' ! n"
      by (simp add: last_conv_nth)
    with lab e last show ?thesis by simp
  qed
  have part2: "\<exists>i<3.
               (\<forall>j<i. \<exists>n\<ge>length tr. opened_and_claimed k tr' n (addresses s ! j) (pports s' ! j))
             \<and> (\<forall>j. i < j \<and> j < 3 \<longrightarrow> pports s' ! j = pports s ! j)
             \<and> pports s' ! i \<le> 0
             \<and> ends_in_failed_open k tr' (addresses s ! i)"
    if "r = Inl CouldntOpen \<or> r = Inl PPCLAIM_Error"
  proof -
    from that obtain e where e: "r = Inl e" "e = CouldntOpen \<or> e = PPCLAIM_Error" by auto
    with res loop have l: "open_loop k [0..<3] s tr = (Inl e, s1, tr1)" by simp
    have "sorted_wrt (<) [0..<3]" by simp
    moreover have "\<forall>j\<in>set [0..<3]. j < length (pports s)" using len by simp
    ultimately obtain i where i: "i \<in> set [0..<3]"
      and lower: "\<forall>j\<in>set [0..<3]. j < i \<longrightarrow>
              (\<exists>n\<ge>length tr. opened_and_claimed k tr1 n (addresses s ! j) (pports s1 ! j))"
      and higher: "\<forall>j\<in>set [0..<3]. i < j \<longrightarrow> pports s1 ! j = pports s ! j"
      and rest: "pports s1 ! i \<le> 0" "ends_in_failed_open k tr1 (addresses s ! i)"
      using open_loop_open_failed [OF l e(2)] by blast
    from i have "i < 3" by simp
    moreover from lower \<open>i < 3\<close>
    have "\<forall>j<i. \<exists>n\<ge>length tr. opened_and_claimed k tr' n (addresses s ! j) (pports s' ! j)"
      using res by auto
    moreover from higher
    have "\<forall>j. i < j \<and> j < 3 \<longrightarrow> pports s' ! j = pports s ! j"
      using res by auto
    ultimately show ?thesis using rest res by auto
  qed
  have label: "r = Inl CouldntOpen \<or> r = Inl PPCLAIM_Error"
    if "r = Inl CouldntOpen \<or> r = Inl PPCLAIM_Error
            \<or> (\<exists>n. length tr \<le> n \<and> n < length tr' \<and> call_failed k tr' n
                    \<and> ((\<exists>a. tr' ! n = SysOpen a) \<or> (\<exists>fd. tr' ! n = PPCLAIM fd)))"
    using that part1 by blast
  from part1 part2 label show ?thesis by blast
qed

theorem multi_open_failure_no_rollback_witness:
  "mexFunction no_parport1_kernel [str_arg ''open''] (initial_state\<lparr>pports := [0, 0, 7]\<rparr>) []
     = (Inl CouldntOpen, initial_state\<lparr>pports := [3, 0, 7]\<rparr>,
        [SysOpen ''/dev/parport0'', PPCLAIM 3, SysOpen ''/dev/parport1''])
   \<and> call_failed no_parport1_kernel
        [SysOpen ''/dev/parport0'', PPCLAIM 3, SysOpen ''/dev/parport1''] 2
   \<and> (\<exists>i<3.
          (\<forall>j<i. \<exists>n\<ge>length ([] :: trace).
                opened_and_claimed no_parport1_kernel
                  [SysOpen ''/dev/parport0'', PPCLAIM 3, SysOpen ''/dev/parport1''] n
                  (addresses (initial_state\<lparr>pports := [0, 0, 7]\<rparr>) ! j)
                  (pports (initial_state\<lparr>pports := [3, 0, 7]\<rparr>) ! j))
        \<and> (\<forall>j. i < j \<and> j < 3 \<longrightarrow>
               pports (initial_state\<lparr>pports := [3, 0, 7]\<rparr>) ! j
                 = pports (initial_state\<lparr>pports := [0, 0, 7]\<rparr>) ! j)
        \<and> pports (initial_state\<lparr>pports := [3, 0, 7]\<rparr>) ! i \<le> 0
        \<and> ends_in_failed_open no_parport1_kernel
             [SysOpen ''/dev/parport0'', PPCLAIM 3, SysOpen ''/dev/parport1'']
             (addresses (initial_state\<lparr>pports := [0, 0, 7]\<rparr>) ! i))"
proof -
  have wf: "wf_state (initial_state\<lparr>pports := [0, 0, 7]\<rparr>)"
    by (simp add: wf_state_def initial_state_def)
  have len: "length [str_arg ''open''] = 1" by simp
  have act: "first_char (mxArrayToString ([str_arg ''open''] ! 0)) = CHR ''o''"
    by (simp add: first_char_def str_arg_def)
  have res: "mexFunction no_parport1_kernel [str_arg ''open''] (initial_state\<lparr>pports := [0, 0, 7]\<rparr>) []
     = (Inl CouldntOpen, initial_state\<lparr>pports := [3, 0, 7]\<rparr>,
        [SysOpen ''/dev/parport0'', PPCLAIM 3, SysOpen ''/dev/parport1''])"
    by (simp add: mexFunction_def switch_action_def first_char_def str_arg_def register_at_exit_def
          case_open_def open_slot_def openPort_def unloadPort_def no_parport1_kernel_def
          initial_state_def upt_0_3 Let_def)
  have failed: "call_failed no_parport1_kernel
        [SysOpen ''/dev/parport0'', PPCLAIM 3, SysOpen ''/dev/parport1''] 2"
    by (simp add: call_failed_def no_parport1_kernel_def)
  from multi_open_failure_no_rollback [OF wf len act res] res failed
  show ?thesis by simp
qed

subsection \<open>Dispatch\<close>

text \<open>
  Claim C2, as claimed: the first character is matched without regard to case. The
  program compares it with the four lower-case letters only, so \<open>Open\<close> is not an
  \<open>open\<close>: it is refused with the error of an unknown action, and nothing is opened.
\<close>

theorem uppercase_action_counterexample:
  "mexFunction good_kernel [str_arg ''Open''] initial_state [] = (Inl NoValidAction, initial_state, [])
   \<and> mexFunction good_kernel [str_arg ''open''] initial_state []
       \<noteq> mexFunction good_kernel [str_arg ''Open''] initial_state []"
  by (simp add: mexFunction_def switch_action_def first_char_def str_arg_def register_at_exit_def
        case_open_def open_slot_def openPort_def unloadPort_def good_kernel_def initial_state_def
        upt_0_3 Let_def)

text \<open>
  Claim C2, amended. Only the first character of the action is looked at, and case
  matters: \<open>o\<close>, \<open>w\<close>, \<open>r\<close> and \<open>c\<close> run the open, write, read and close case
  whatever follows them; every other first character, upper-case letters included, and
  the empty action are refused with the error of an unknown action, the globals and the
  trace unchanged.
\<close>

theorem dispatch_on_first_char_case_sensitive:
  "(mxArrayToString a = c # rest \<longrightarrow>
      mexFunction k (a # extra) s tr =
        (if c = CHR ''o'' then register_at_exit (case_open k (a # extra) s tr)
         else if c = CHR ''w'' then register_at_exit (case_write k (a # extra) s tr)
         else if c = CHR ''r'' then register_at_exit (case_read k (a # extra) s tr)
         else if c = CHR ''c'' then register_at_exit (case_close k (a # extra) s tr)
         else (Inl NoValidAction, s, tr)))
   \<and> (mxArrayToString a = [] \<longrightarrow>
         mexFunction k (a # extra) s tr = (Inl NoValidAction, s, tr))"
  by (simp add: mexFunction_def switch_action_def first_char_def register_at_exit_def)

theorem dispatch_on_first_char_case_sensitive_witness:
  "mexFunction good_kernel [str_arg ''wxyz'', num_arg 200] (initial_state\<lparr>pports := [3, 4, 5]\<rparr>) []
     = (Inr [], initial_state\<lparr>pports := [3, 4, 5], at_exit_registered := True\<rparr>, [PPWDATA 4 200])
   \<and> mexFunction good_kernel [str_arg ''Write'', num_arg 200] (initial_state\<lparr>pports := [3, 4, 5]\<rparr>) []
     = (Inl NoValidAction, initial_state\<lparr>pports := [3, 4, 5]\<rparr>, [])
   \<and> mexFunction good_kernel [str_arg [], num_arg 200] (initial_state\<lparr>pports := [3, 4, 5]\<rparr>) []
     = (Inl NoValidAction, initial_state\<lparr>pports := [3, 4, 5]\<rparr>, [])"
  using dispatch_on_first_char_case_sensitive
          [where a = "str_arg ''wxyz''" and c = "CHR ''w''" and rest = "''xyz''" and k = good_kernel
             and extra = "[num_arg 200]" and s = "initial_state\<lparr>pports := [3, 4, 5]\<rparr>" and tr = "[]"]
        dispatch_on_first_char_case_sensitive
          [where a = "str_arg ''Write''" and c = "CHR ''W''" and rest = "''rite''" and k = good_kernel
             and extra = "[num_arg 200]" and s = "initial_state\<lparr>pports := [3, 4, 5]\<rparr>" and tr = "[]"]
        dispatch_on_first_char_case_sensitive
          [where a = "str_arg []" and k = good_kernel
             and extra = "[num_arg 200]" and s = "initial_state\<lparr>pports := [3, 4, 5]\<rparr>" and tr = "[]"]
  by (simp add: str_arg_def num_arg_def register_at_exit_def case_write_def writePort_def
        good_kernel_def initial_state_def uchar_of_double_def trunc_toward_zero_def)

subsection \<open>Closing\<close>

text \<open>
  Claim C4. \<open>close\<close> with no further argument, in any mode, when the release and the
  close of each open slot succeed: the kernel receives, for slots 0, 1, 2 in this order,
  the release and then the close of each descriptor that is open, and nothing for the
  others; every open slot is set to 0; \<open>use_multiple_ports\<close> and \<open>writing_port_idx\<close>
  are both 1 afterwards; the call returns normally.
\<close>

theorem close_releases_open_slots_and_resets:
  assumes "pports s = [p0, p1, p2]"
    and "length prhs = 1" and "first_char (mxArrayToString (prhs ! 0)) = CHR ''c''"
    and "unload_ok k tr p0"
    and "unload_ok k (tr @ unload_calls p0) p1"
    and "unload_ok k (tr @ unload_calls p0 @ unload_calls p1) p2"
  shows "mexFunction k prhs s tr =
           (Inr [],
            s\<lparr>pports := [closed_handle p0, closed_handle p1, closed_handle p2],
              use_multiple_ports := 1, writing_port_idx := 1, at_exit_registered := True\<rparr>,
            tr @ unload_calls p0 @ unload_calls p1 @ unload_calls p2)"
proof -
  have "unloadAll k s tr =
          (Inr (), s\<lparr>pports := [closed_handle p0, closed_handle p1, closed_handle p2]\<rparr>,
           tr @ unload_calls p0 @ unload_calls p1 @ unload_calls p2)"
    using assms(1) unloadPort_ok [OF assms(4)] unloadPort_ok [OF assms(5)] unloadPort_ok [OF assms(6)]
    by (simp add: unloadAll_def upt_0_3)
  then show ?thesis
    using assms(2,3) by (simp add: close_call_unfold case_close_def register_at_exit_def)
qed

theorem close_releases_open_slots_and_resets_witness:
  "mexFunction good_kernel [str_arg ''close'']
      (initial_state\<lparr>pports := [3, 0, 5], use_multiple_ports := 0, writing_port_idx := 0\<rparr>)
      [SysOpen ''/dev/parport0'']
   = (Inr [],
      initial_state\<lparr>pports := [0, 0, 0], at_exit_registered := True\<rparr>,
      [SysOpen ''/dev/parport0'', PPRELEASE 3, SysClose 3, PPRELEASE 5, SysClose 5])"
  using close_releases_open_slots_and_resets
          [where k = good_kernel and prhs = "[str_arg ''close'']"
             and s = "initial_state\<lparr>pports := [3, 0, 5], use_multiple_ports := 0, writing_port_idx := 0\<rparr>"
             and tr = "[SysOpen ''/dev/parport0'']" and ?p0.0 = 3 and ?p1.0 = 0 and ?p2.0 = 5]
  by (simp add: ex_defs)

text \<open>
  Claim C8. \<open>close\<close> when the three descriptors are 0, on any kernel: the call returns
  normally, no call reaches the kernel, the descriptors stay 0 and the two mode flags are
  1.
\<close>

theorem close_with_nothing_open:
  assumes "length prhs = 1" and "first_char (mxArrayToString (prhs ! 0)) = CHR ''c''"
    and "pports s = [0, 0, 0]"
  shows "mexFunction k prhs s tr =
           (Inr [], s\<lparr>use_multiple_ports := 1, writing_port_idx := 1, at_exit_registered := True\<rparr>, tr)"
proof -
  have "unloadPort k 0 tr = (Inr 0, tr)" by (simp add: unloadPort_def)
  then have "unloadAll k s tr = (Inr (), s, tr)"
    using assms(3) by (simp add: unloadAll_def upt_0_3)
  then show ?thesis
    using assms(1,2) by (simp add: close_call_unfold case_close_def register_at_exit_def)
qed

theorem close_with_nothing_open_witness:
  "mexFunction good_kernel [str_arg ''close'']
     \<lparr>pports = [0, 0, 0], addresses = [''/dev/parport0'', ''/dev/parport1'', ''/dev/parport4''],
      use_multiple_ports = 0, writing_port_idx = 0, at_exit_registered = True\<rparr>
     [SysOpen ''/dev/parport1'']
   = (Inr [],
      \<lparr>pports = [0, 0, 0], addresses = [''/dev/parport0'', ''/dev/parport1'', ''/dev/parport4''],
       use_multiple_ports = 1, writing_port_idx = 1, at_exit_registered = True\<rparr>,
      [SysOpen ''/dev/parport1''])"
  using close_with_nothing_open [of "[str_arg ''close'']"
     "\<lparr>pports = [0, 0, 0], addresses = [''/dev/parport0'', ''/dev/parport1'', ''/dev/parport4''],
      use_multiple_ports = 0, writing_port_idx = 0, at_exit_registered = True\<rparr>"
     good_kernel "[SysOpen ''/dev/parport1'']"]
  by (simp add: first_char_def str_arg_def)

subsection \<open>Reading and writing\<close>

text \<open>
  Claim C5. With a descriptor that is not positive, \<open>writePort\<close> and \<open>readPort\<close>
  raise \<open>NotOpened\<close> and make no kernel call. So does \<open>write\<close> when the slot of the
  writing port is not open, and \<open>read\<close> in single-port mode when slot 0 is not open:
  globals and trace are unchanged. In multi-port mode, \<open>read\<close> reads the open slots
  below the first slot \<open>i\<close> that is not open and, these reads succeeding, raises
  \<open>NotOpened\<close> without a call for slot \<open>i\<close>. \<open>NotOpened\<close> is not the error of a
  failed write or read \<open>ioctl\<close>.
\<close>

theorem not_opened_is_a_precondition_error:
  "(pport \<le> 0 \<longrightarrow>
      writePort k message pport tr = (Inl NotOpened, tr)
      \<and> readPort k pport tr = (Inl NotOpened, tr))
   \<and> (length wprhs = 2 \<and> first_char (mxArrayToString (wprhs ! 0)) = CHR ''w''
        \<and> pports s ! nat (writing_port_idx s) \<le> 0
      \<longrightarrow> mexFunction k wprhs s tr = (Inl NotOpened, s, tr))
   \<and> (length rprhs = 1 \<and> first_char (mxArrayToString (rprhs ! 0)) = CHR ''r''
        \<and> use_multiple_ports s = 0 \<and> pports s ! 0 \<le> 0
      \<longrightarrow> mexFunction k rprhs s tr = (Inl NotOpened, s, tr))
   \<and> (length rprhs = 1 \<and> first_char (mxArrayToString (rprhs ! 0)) = CHR ''r''
        \<and> use_multiple_ports s \<noteq> 0 \<and> length (pports s) = 3 \<and> i < 3 \<and> pports s ! i \<le> 0
        \<and> (\<forall>j<i. 0 < pports s ! j
                  \<and> 0 \<le> sys_ret k (tr @ map PPRSTATUS (take j (pports s))) (PPRSTATUS (pports s ! j)))
      \<longrightarrow> mexFunction k rprhs s tr = (Inl NotOpened, s, tr @ map PPRSTATUS (take i (pports s))))
   \<and> NotOpened \<noteq> PPWDATA_Error \<and> NotOpened \<noteq> PPRSTATUS_Error"
proof (intro conjI impI)
  assume "pport \<le> 0"
  then show "writePort k message pport tr = (Inl NotOpened, tr)"
    and "readPort k pport tr = (Inl NotOpened, tr)"
    by (simp_all add: writePort_def readPort_def)
next
  assume h: "length wprhs = 2 \<and> first_char (mxArrayToString (wprhs ! 0)) = CHR ''w''
        \<and> pports s ! nat (writing_port_idx s) \<le> 0"
  then have "mexFunction k wprhs s tr = register_at_exit (case_write k wprhs s tr)"
    by (simp add: write_call_unfold)
  with h show "mexFunction k wprhs s tr = (Inl NotOpened, s, tr)"
    by (simp add: case_write_def writePort_def register_at_exit_def)
next
  assume h: "length rprhs = 1 \<and> first_char (mxArrayToString (rprhs ! 0)) = CHR ''r''
        \<and> use_multiple_ports s = 0 \<and> pports s ! 0 \<le> 0"
  then have "mexFunction k rprhs s tr = register_at_exit (case_read k rprhs s tr)"
    by (simp add: read_call_unfold)
  with h show "mexFunction k rprhs s tr = (Inl NotOpened, s, tr)"
    by (simp add: case_read_def readPort_def register_at_exit_def)
next
  assume h: "length rprhs = 1 \<and> first_char (mxArrayToString (rprhs ! 0)) = CHR ''r''
        \<and> use_multiple_ports s \<noteq> 0 \<and> length (pports s) = 3 \<and> i < 3 \<and> pports s ! i \<le> 0
        \<and> (\<forall>j<i. 0 < pports s ! j
                  \<and> 0 \<le> sys_ret k (tr @ map PPRSTATUS (take j (pports s))) (PPRSTATUS (pports s ! j)))"
  then have u: "mexFunction k rprhs s tr = register_at_exit (case_read k rprhs s tr)"
    by (simp add: read_call_unfold)
  from h obtain p0 p1 p2 where ps: "pports s = [p0, p1, p2]"
    by (auto simp: length_Suc_conv numeral_3_eq_3)
  from h have "i = 0 \<or> i = 1 \<or> i = 2" by auto
  then show "mexFunction k rprhs s tr = (Inl NotOpened, s, tr @ map PPRSTATUS (take i (pports s)))"
  proof (elim disjE)
    assume "i = 0"
    with h ps show ?thesis
      by (simp add: u case_read_def readPort_def register_at_exit_def upt_0_3)
  next
    assume i: "i = 1"
    with h ps have "0 < p0 \<and> 0 \<le> sys_ret k tr (PPRSTATUS p0)" "p1 \<le> 0"
      by auto
    with h ps i show ?thesis
      by (simp add: u case_read_def readPort_def register_at_exit_def upt_0_3)
  next
    assume i: "i = 2"
    from h i have a: "\<forall>j<2. 0 < pports s ! j
                  \<and> 0 \<le> sys_ret k (tr @ map PPRSTATUS (take j (pports s))) (PPRSTATUS (pports s ! j))"
      by simp
    from a [rule_format, of 0] ps have "0 < p0 \<and> 0 \<le> sys_ret k tr (PPRSTATUS p0)" by simp
    moreover from a [rule_format, of 1] ps
    have "0 < p1 \<and> 0 \<le> sys_ret k (tr @ [PPRSTATUS p0]) (PPRSTATUS p1)" by simp
    moreover from h ps i have "p2 \<le> 0" by simp
    ultimately show ?thesis using h ps i
      by (simp add: u case_read_def readPort_def register_at_exit_def upt_0_3 numeral_2_eq_2)
  qed
qed simp_all

theorem not_opened_is_a_precondition_error_witness:
  "mexFunction good_kernel [str_arg ''write'', num_arg 200]
      (initial_state\<lparr>pports := [3, 0, 5]\<rparr>) [SysOpen ''/dev/parport0'']
     = (Inl NotOpened, initial_state\<lparr>pports := [3, 0, 5]\<rparr>, [SysOpen ''/dev/parport0''])
   \<and> mexFunction good_kernel [str_arg ''read'']
      (initial_state\<lparr>pports := [3, 0, 5]\<rparr>) [SysOpen ''/dev/parport0'']
     = (Inl NotOpened, initial_state\<lparr>pports := [3, 0, 5]\<rparr>, [SysOpen ''/dev/parport0'', PPRSTATUS 3])
   \<and> mexFunction good_kernel [str_arg ''read'']
      (initial_state\<lparr>use_multiple_ports := 0, writing_port_idx := 0\<rparr>) []
     = (Inl NotOpened, initial_state\<lparr>use_multiple_ports := 0, writing_port_idx := 0\<rparr>, [])
   \<and> writePort good_kernel 200 0 [] = (Inl NotOpened, [])
   \<and> readPort good_kernel 0 [] = (Inl NotOpened, [])"
  using not_opened_is_a_precondition_error
          [where k = good_kernel and wprhs = "[str_arg ''write'', num_arg 200]"
             and rprhs = "[str_arg ''read'']" and s = "initial_state\<lparr>pports := [3, 0, 5]\<rparr>"
             and tr = "[SysOpen ''/dev/parport0'']" and i = 1 and pport = 0 and message = 200]
        not_opened_is_a_precondition_error
          [where k = good_kernel and wprhs = "[str_arg ''write'', num_arg 200]"
             and rprhs = "[str_arg ''read'']"
             and s = "initial_state\<lparr>use_multiple_ports := 0, writing_port_idx := 0\<rparr>"
             and tr = "[]" and i = 0 and pport = 0 and message = 200]
  by (simp add: ex_defs)

text \<open>
  Claim C6. \<open>read\<close> with no further argument. In multi-port mode, the three slots
  open and the three status reads succeeding, it returns three values: the status bytes
  of slots 0, 1, 2, read in this order, each as the number between 0 and 255 it denotes.
  In single-port mode, slot 0 open and its read succeeding, it returns one value, the
  status byte of slot 0. Whatever the outcome, the descriptors, the addresses and the two
  mode flags are as before.
\<close>

theorem read_returns_one_value_per_slot:
  assumes "pports s = [p0, p1, p2]"
    and "length prhs = 1" and "first_char (mxArrayToString (prhs ! 0)) = CHR ''r''"
  shows "(use_multiple_ports s \<noteq> 0
          \<and> 0 < p0 \<and> 0 \<le> sys_ret k tr (PPRSTATUS p0)
          \<and> 0 < p1 \<and> 0 \<le> sys_ret k (tr @ [PPRSTATUS p0]) (PPRSTATUS p1)
          \<and> 0 < p2 \<and> 0 \<le> sys_ret k (tr @ [PPRSTATUS p0, PPRSTATUS p1]) (PPRSTATUS p2)
          \<longrightarrow> mexFunction k prhs s tr =
                (Inr [real (unat (status_byte k tr p0)),
                      real (unat (status_byte k (tr @ [PPRSTATUS p0]) p1)),
                      real (unat (status_byte k (tr @ [PPRSTATUS p0, PPRSTATUS p1]) p2))],
                 s\<lparr>at_exit_registered := True\<rparr>,
                 tr @ [PPRSTATUS p0, PPRSTATUS p1, PPRSTATUS p2]))
       \<and> (use_multiple_ports s = 0 \<and> 0 < p0 \<and> 0 \<le> sys_ret k tr (PPRSTATUS p0)
          \<longrightarrow> mexFunction k prhs s tr =
                (Inr [real (unat (status_byte k tr p0))],
                 s\<lparr>at_exit_registered := True\<rparr>,
                 tr @ [PPRSTATUS p0]))
       \<and> (\<forall>r s' tr'. mexFunction k prhs s tr = (r, s', tr') \<longrightarrow>
             pports s' = pports s \<and> addresses s' = addresses s
             \<and> use_multiple_ports s' = use_multiple_ports s
             \<and> writing_port_idx s' = writing_port_idx s)"
proof -
  from assms(2,3) have u: "mexFunction k prhs s tr = register_at_exit (case_read k prhs s tr)"
    by (simp add: read_call_unfold)
  have multi: "mexFunction k prhs s tr =
                (Inr [real (unat (status_byte k tr p0)),
                      real (unat (status_byte k (tr @ [PPRSTATUS p0]) p1)),
                      real (unat (status_byte k (tr @ [PPRSTATUS p0, PPRSTATUS p1]) p2))],
                 s\<lparr>at_exit_registered := True\<rparr>,
                 tr @ [PPRSTATUS p0, PPRSTATUS p1, PPRSTATUS p2])"
    if "use_multiple_ports s \<noteq> 0
          \<and> 0 < p0 \<and> 0 \<le> sys_ret k tr (PPRSTATUS p0)
          \<and> 0 < p1 \<and> 0 \<le> sys_ret k (tr @ [PPRSTATUS p0]) (PPRSTATUS p1)
          \<and> 0 < p2 \<and> 0 \<le> sys_ret k (tr @ [PPRSTATUS p0, PPRSTATUS p1]) (PPRSTATUS p2)"
    using that assms(1,2)
    by (simp add: u case_read_def register_at_exit_def readPort_def upt_0_3)
  have single: "mexFunction k prhs s tr =
                (Inr [real (unat (status_byte k tr p0))],
                 s\<lparr>at_exit_registered := True\<rparr>,
                 tr @ [PPRSTATUS p0])"
    if "use_multiple_ports s = 0 \<and> 0 < p0 \<and> 0 \<le> sys_ret k tr (PPRSTATUS p0)"
    using that assms(1,2)
    by (simp add: u case_read_def register_at_exit_def readPort_def)
  have frame: "pports s' = pports s \<and> addresses s' = addresses s
             \<and> use_multiple_ports s' = use_multiple_ports s
             \<and> writing_port_idx s' = writing_port_idx s"
    if "mexFunction k prhs s tr = (r, s', tr')" for r s' tr'
  proof -
    obtain r1 s1 tr1 where c: "case_read k prhs s tr = (r1, s1, tr1)"
      by (cases "case_read k prhs s tr") auto
    from case_read_state [OF c] have "s1 = s" .
    with that c show ?thesis
      by (auto simp: u register_at_exit_def split: sum.splits)
  qed
  from multi single frame show ?thesis by blast
qed

theorem read_returns_one_value_per_slot_witness:
  "mexFunction good_kernel [str_arg ''read''] (initial_state\<lparr>pports := [3, 4, 5]\<rparr>) []
     = (Inr [3, 4, 5], initial_state\<lparr>pports := [3, 4, 5], at_exit_registered := True\<rparr>,
        [PPRSTATUS 3, PPRSTATUS 4, PPRSTATUS 5])
   \<and> mexFunction good_kernel [str_arg ''read'']
        (initial_state\<lparr>pports := [3, 4, 5], use_multiple_ports := 0, writing_port_idx := 0\<rparr>) []
     = (Inr [3],
        initial_state\<lparr>pports := [3, 4, 5], use_multiple_ports := 0, writing_port_idx := 0,
                       at_exit_registered := True\<rparr>,
        [PPRSTATUS 3])"
proof -
  have len: "length [str_arg ''read''] = 1" by simp
  have act: "first_char (mxArrayToString ([str_arg ''read''] ! 0)) = CHR ''r''"
    by (simp add: first_char_def str_arg_def)
  have p1: "pports (initial_state\<lparr>pports := [3, 4, 5]\<rparr>) = [3, 4, 5]" by simp
  have p2: "pports (initial_state\<lparr>pports := [3, 4, 5], use_multiple_ports := 0, writing_port_idx := 0\<rparr>) = [3, 4, 5]"
    by simp
  have m1: "use_multiple_ports (initial_state\<lparr>pports := [3, 4, 5]\<rparr>) \<noteq> 0"
    by (simp add: initial_state_def)
  have m2: "use_multiple_ports (initial_state\<lparr>pports := [3, 4, 5], use_multiple_ports := 0, writing_port_idx := 0\<rparr>) = 0"
    by simp
  note a = read_returns_one_value_per_slot [OF p1 len act, of good_kernel "[]", THEN conjunct1]
  note b = read_returns_one_value_per_slot [OF p2 len act, of good_kernel "[]", THEN conjunct2, THEN conjunct1]
  from a m1 have A: "mexFunction good_kernel [str_arg ''read''] (initial_state\<lparr>pports := [3, 4, 5]\<rparr>) []
     = (Inr [3, 4, 5], initial_state\<lparr>pports := [3, 4, 5], at_exit_registered := True\<rparr>,
        [PPRSTATUS 3, PPRSTATUS 4, PPRSTATUS 5])"
    by (simp add: good_kernel_status good_kernel_status_ret)
  from b m2 have B: "mexFunction good_kernel [str_arg ''read'']
        (initial_state\<lparr>pports := [3, 4, 5], use_multiple_ports := 0, writing_port_idx := 0\<rparr>) []
     = (Inr [3],
        initial_state\<lparr>pports := [3, 4, 5], use_multiple_ports := 0, writing_port_idx := 0,
                       at_exit_registered := True\<rparr>,
        [PPRSTATUS 3])"
    by (simp add: good_kernel_status good_kernel_status_ret)
  from A B show ?thesis by (rule conjI)
qed

subsection \<open>The value written\<close>

lemma uchar_of_double_in_range:
  assumes "0 \<le> x" and "x < 256"
  shows "uchar_of_double k x = word_of_int \<lfloor>x\<rfloor> \<and> unat (uchar_of_double k x) = nat \<lfloor>x\<rfloor>"
proof -
  from assms have f: "0 \<le> \<lfloor>x\<rfloor>" "\<lfloor>x\<rfloor> \<le> 255"
    by (simp_all add: floor_le_iff)
  with assms(1) have eq: "uchar_of_double k x = word_of_int \<lfloor>x\<rfloor>"
    by (simp add: uchar_of_double_def trunc_toward_zero_def)
  from f have "\<lfloor>x\<rfloor> mod 256 = \<lfloor>x\<rfloor>" by simp
  then have "unat (word_of_int \<lfloor>x\<rfloor> :: 8 word) = nat \<lfloor>x\<rfloor>"
    by (simp add: unat_eq_nat_uint uint_word_of_int)
  with eq show ?thesis by simp
qed

lemma uchar_of_double_small_negative:
  assumes "- 1 < x" and "x < 0"
  shows "uchar_of_double k x = 0"
proof -
  from assms have "\<lceil>x\<rceil> = 0" by (simp add: ceiling_eq_iff)
  with assms show ?thesis
    by (simp add: uchar_of_double_def trunc_toward_zero_def)
qed

text \<open>
  Claim C10, as claimed: whatever number is given, the byte written is that number modulo
  256. The byte written is the cast \<open>(unsigned char)\<close> of the double, which C defines only
  when the integral part is one of 0, ..., 255. On an x86-64 machine \<open>write\<close> of
  3000000001, with the writing port open, is accepted and writes 0, while 3000000001
  modulo 256 is 1.
\<close>

theorem write_out_of_range_counterexample:
  "mexFunction good_kernel [str_arg ''write'', num_arg 3000000001] (initial_state\<lparr>pports := [3, 4, 5]\<rparr>) []
     = (Inr [], initial_state\<lparr>pports := [3, 4, 5], at_exit_registered := True\<rparr>, [PPWDATA 4 0])
   \<and> (3000000001::int) mod 256 = 1
   \<and> (0::8 word) \<noteq> word_of_int (3000000001 mod 256)"
  by (simp add: mexFunction_def switch_action_def first_char_def str_arg_def num_arg_def
        register_at_exit_def case_write_def writePort_def good_kernel_def initial_state_def
        uchar_of_double_def x86_uchar_out_of_range_def trunc_toward_zero_def Let_def)

text \<open>
  Claim C10, amended. \<open>write\<close> with the writing port open, for any number \<open>x\<close> and on any
  machine: the value is never a reason to refuse. The kernel receives one call, the write
  of the byte \<open>(unsigned char) x\<close> to the descriptor of the writing port, and the outcome
  is that of this call alone. For \<open>0 \<le> x < 256\<close> the byte is the integral part of
  \<open>x\<close>; for \<open>- 1 < x < 0\<close> it is 0; for every other \<open>x\<close> it is what the machine's
  conversion gives, on which the source says nothing.
\<close>

theorem write_casts_without_validation:
  assumes "length prhs = 2" and "first_char (mxArrayToString (prhs ! 0)) = CHR ''w''"
    and "x = mxGetScalar (prhs ! 1)"
    and "fd = pports s ! nat (writing_port_idx s)" and "0 < fd"
  shows "(0 \<le> sys_ret k tr (PPWDATA fd (uchar_of_double k x)) \<longrightarrow>
            mexFunction k prhs s tr =
              (Inr [], s\<lparr>at_exit_registered := True\<rparr>, tr @ [PPWDATA fd (uchar_of_double k x)]))
       \<and> (sys_ret k tr (PPWDATA fd (uchar_of_double k x)) < 0 \<longrightarrow>
            mexFunction k prhs s tr =
              (Inl PPWDATA_Error, s, tr @ [PPWDATA fd (uchar_of_double k x)]))
       \<and> (0 \<le> x \<and> x < 256 \<longrightarrow>
            uchar_of_double k x = word_of_int \<lfloor>x\<rfloor> \<and> unat (uchar_of_double k x) = nat \<lfloor>x\<rfloor>)
       \<and> (- 1 < x \<and> x < 0 \<longrightarrow> uchar_of_double k x = 0)
       \<and> (x \<le> - 1 \<or> 256 \<le> x \<longrightarrow> uchar_of_double k x = uchar_out_of_range k x)"
proof -
  from assms(1,2) have u: "mexFunction k prhs s tr = register_at_exit (case_write k prhs s tr)"
    by (simp add: write_call_unfold)
  have ok: "mexFunction k prhs s tr =
              (Inr [], s\<lparr>at_exit_registered := True\<rparr>, tr @ [PPWDATA fd (uchar_of_double k x)])"
    if "0 \<le> sys_ret k tr (PPWDATA fd (uchar_of_double k x))"
    using that assms(1,3,4,5)
    by (simp add: u case_write_def writePort_def register_at_exit_def)
  have bad: "mexFunction k prhs s tr =
              (Inl PPWDATA_Error, s, tr @ [PPWDATA fd (uchar_of_double k x)])"
    if "sys_ret k tr (PPWDATA fd (uchar_of_double k x)) < 0"
    using that assms(1,3,4,5)
    by (simp add: u case_write_def writePort_def register_at_exit_def)
  have out: "uchar_of_double k x = uchar_out_of_range k x" if "x \<le> - 1 \<or> 256 \<le> x"
  proof -
    from that have "\<not> (0 \<le> trunc_toward_zero x \<and> trunc_toward_zero x \<le> 255)"
      by (auto simp: trunc_toward_zero_def ceiling_less_iff le_floor_iff)
    then show ?thesis by (auto simp: uchar_of_double_def Let_def)
  qed
  from ok bad out uchar_of_double_in_range [of x k] uchar_of_double_small_negative [of x k]
  show ?thesis by blast
qed

theorem write_casts_without_validation_witness:
  "mexFunction good_kernel [str_arg ''write'', num_arg 200.75] (initial_state\<lparr>pports := [3, 4, 5]\<rparr>) []
     = (Inr [], initial_state\<lparr>pports := [3, 4, 5], at_exit_registered := True\<rparr>, [PPWDATA 4 200])
   \<and> mexFunction good_kernel [str_arg ''write'', num_arg (- 1)] (initial_state\<lparr>pports := [3, 4, 5]\<rparr>) []
     = (Inr [], initial_state\<lparr>pports := [3, 4, 5], at_exit_registered := True\<rparr>,
        [PPWDATA 4 (uchar_out_of_range good_kernel (- 1))])"
proof -
  have len: "length [str_arg ''write'', num_arg 200.75] = 2"
            "length [str_arg ''write'', num_arg (- 1)] = 2" by simp_all
  have act: "first_char (mxArrayToString ([str_arg ''write'', num_arg 200.75] ! 0)) = CHR ''w''"
            "first_char (mxArrayToString ([str_arg ''write'', num_arg (- 1)] ! 0)) = CHR ''w''"
    by (simp_all add: first_char_def str_arg_def)
  have x: "(200.75::real) = mxGetScalar ([str_arg ''write'', num_arg 200.75] ! 1)"
          "(- 1::real) = mxGetScalar ([str_arg ''write'', num_arg (- 1)] ! 1)"
    by (simp_all add: num_arg_def)
  have fd: "(4::int) = pports (initial_state\<lparr>pports := [3, 4, 5]\<rparr>) ! nat (writing_port_idx (initial_state\<lparr>pports := [3, 4, 5]\<rparr>))"
    by (simp add: initial_state_def)
  have pos: "(0::int) < 4" by simp
  have ret: "\<And>b. 0 \<le> sys_ret good_kernel [] (PPWDATA 4 b)" by (simp add: good_kernel_def)
  have fl: "\<lfloor>200.75::real\<rfloor> = 200" by (simp add: floor_eq_iff)
  note a = write_casts_without_validation [OF len(1) act(1) x(1) fd pos, of good_kernel "[]"]
  note b = write_casts_without_validation [OF len(2) act(2) x(2) fd pos, of good_kernel "[]"]
  from a have "uchar_of_double good_kernel 200.75 = 200" by (simp add: fl)
  with a ret have A: "mexFunction good_kernel [str_arg ''write'', num_arg 200.75] (initial_state\<lparr>pports := [3, 4, 5]\<rparr>) []
     = (Inr [], initial_state\<lparr>pports := [3, 4, 5], at_exit_registered := True\<rparr>, [PPWDATA 4 200])"
    by simp
  from b have "uchar_of_double good_kernel (- 1) = uchar_out_of_range good_kernel (- 1)" by simp
  with b ret have B: "mexFunction good_kernel [str_arg ''write'', num_arg (- 1)] (initial_state\<lparr>pports := [3, 4, 5]\<rparr>) []
     = (Inr [], initial_state\<lparr>pports := [3, 4, 5], at_exit_registered := True\<rparr>,
        [PPWDATA 4 (uchar_out_of_range good_kernel (- 1))])"
    by simp
  from A B show ?thesis by (rule conjI)
qed

subsection \<open>The mode flags in every reachable state\<close>

text \<open>
  Claim C9. Start from the initial globals and make any sequence of calls to the entry
  point, with any arguments and on any kernel, including calls that abort with an error
  partway. In the state reached, \<open>writing_port_idx\<close> is 0 or 1, and
  \<open>use_multiple_ports\<close> is non-zero if and only if \<open>writing_port_idx\<close> is 1.
\<close>

theorem mode_flags_invariant:
  "mode_flags_consistent (fst (run k calls (initial_state, tr)))"
  by (rule run_flags) (simp add: mode_flags_consistent_def initial_state_def)

end
